theory Spec2Isabelle
  imports
    Complex_Main
    "HOL-Library.Product_Lexorder"
    "HOL-Library.List_Lexorder"
    "HOL-Library.Char_ord"
begin

section \<open>The highway navigator: data model\<close>

text \<open>
  The class \<^verbatim>\<open>PhilippineHighwayNavigatorUCS\<close> of \<^verbatim>\<open>gps_navigation_ucs.py\<close>.
  Numbers (Python ints and floats) are modelled as exact reals. Location identifiers are
  any linearly ordered type, since the priority queue compares them when two costs tie;
  highway names are strings.

  An adjacency record is the 6-tuple
  \<^verbatim>\<open>(neighbor, total_cost, distance_km, traffic_factor, toll_php, highway_name)\<close> and a
  waypoint of a path is the 5-tuple
  \<^verbatim>\<open>(location, cumulative_cost, cumulative_distance, cumulative_toll, highway_used)\<close>.
  A queue entry is \<^verbatim>\<open>(cost, current_location, path_info)\<close>. Python orders tuples and
  lists lexicographically, which is the order the product and list instances give.
\<close>

type_synonym 'n edge = "'n \<times> real \<times> real \<times> real \<times> real \<times> string"
type_synonym 'n waypoint = "'n \<times> real \<times> real \<times> real \<times> string"
type_synonym 'n entry = "real \<times> 'n \<times> 'n waypoint list"

text \<open>The value \<^verbatim>\<open>ucs_search\<close> returns: a 4-tuple whose components are all \<^verbatim>\<open>None\<close> on failure.\<close>

type_synonym 'n outcome = "'n waypoint list option \<times> real option \<times> real option \<times> real option"

record 'n navigator =
  graph :: "'n \<rightharpoonup> 'n edge list"
  locations :: "'n \<rightharpoonup> string"
  start :: "'n option"
  goal :: "'n option"

datatype py_error = IndexError | TypeError

text \<open>
  Of everything the class prints, the model keeps the two lines that report a failed
  search: line 76 (\<^verbatim>\<open>Error: Start or Goal location not found ...\<close>) and line 178
  (\<^verbatim>\<open>No highway route found ...\<close>).
\<close>

datatype notice = LocationNotFound | NoRouteFound

definition edge_to :: "'n edge \<Rightarrow> 'n" where
  "edge_to e = fst e"

definition edge_cost :: "'n edge \<Rightarrow> real" where
  "edge_cost e = fst (snd e)"

definition edge_distance :: "'n edge \<Rightarrow> real" where
  "edge_distance e = fst (snd (snd e))"

definition edge_toll :: "'n edge \<Rightarrow> real" where
  "edge_toll e = fst (snd (snd (snd (snd e))))"

definition edge_highway :: "'n edge \<Rightarrow> string" where
  "edge_highway e = snd (snd (snd (snd (snd e))))"

definition wp_location :: "'n waypoint \<Rightarrow> 'n" where
  "wp_location w = fst w"

definition wp_cost :: "'n waypoint \<Rightarrow> real" where
  "wp_cost w = fst (snd w)"

definition wp_distance :: "'n waypoint \<Rightarrow> real" where
  "wp_distance w = fst (snd (snd w))"

definition wp_toll :: "'n waypoint \<Rightarrow> real" where
  "wp_toll w = fst (snd (snd (snd w)))"

definition wp_highway :: "'n waypoint \<Rightarrow> string" where
  "wp_highway w = snd (snd (snd (snd w)))"

section \<open>Building the network\<close>

definition init :: "'n navigator" where
  "init = \<lparr>graph = Map.empty, locations = Map.empty, start = None, goal = None\<rparr>"

definition add_location :: "'n \<Rightarrow> string \<Rightarrow> 'n navigator \<Rightarrow> 'n navigator" where
  "add_location location_id name nav =
     (let nav1 = nav\<lparr>locations := (locations nav)(location_id \<mapsto> name)\<rparr>
      in if graph nav1 location_id = None
         then nav1\<lparr>graph := (graph nav1)(location_id \<mapsto> [])\<rparr>
         else nav1)"

text \<open>
  \<^verbatim>\<open>self.graph[k].append(r)\<close>: the key is present when the append runs, because the two
  guards before it create a missing entry; a missing key would raise \<^verbatim>\<open>KeyError\<close>, which
  \<open>append_record\<close> renders as leaving the entry absent.
\<close>

definition append_record :: "('n \<rightharpoonup> 'n edge list) \<Rightarrow> 'n \<Rightarrow> 'n edge \<Rightarrow> ('n \<rightharpoonup> 'n edge list)" where
  "append_record g k r = (case g k of None \<Rightarrow> g | Some adj \<Rightarrow> g(k \<mapsto> adj @ [r]))"

definition add_highway ::
  "'n \<Rightarrow> 'n \<Rightarrow> real \<Rightarrow> real \<Rightarrow> real \<Rightarrow> string \<Rightarrow> 'n navigator \<Rightarrow> 'n navigator" where
  "add_highway from_loc to_loc distance_km traffic_factor toll_php highway_name nav =
     (let total_cost = distance_km * traffic_factor + toll_php / 10;
          g1 = (if graph nav from_loc = None then (graph nav)(from_loc \<mapsto> []) else graph nav);
          g2 = (if g1 to_loc = None then g1(to_loc \<mapsto> []) else g1);
          g3 = append_record g2 from_loc
                 (to_loc, total_cost, distance_km, traffic_factor, toll_php, highway_name);
          g4 = append_record g3 to_loc
                 (from_loc, total_cost, distance_km, traffic_factor, toll_php, highway_name)
      in nav\<lparr>graph := g4\<rparr>)"

section \<open>Uniform cost search\<close>

text \<open>
  \<^verbatim>\<open>heapq\<close> is modelled by its contract: the heap holds a multiset of entries,
  \<^verbatim>\<open>heappush\<close> adds one, and \<^verbatim>\<open>heappop\<close> removes and returns a least one (raising
  \<^verbatim>\<open>IndexError\<close> on an empty heap). The order on entries is total, so two least entries
  are equal and the popped value does not depend on the heap's layout.
\<close>

definition heappush :: "'a list \<Rightarrow> 'a \<Rightarrow> 'a list" where
  "heappush heap item = heap @ [item]"

definition heappop :: "('a::linorder) list \<Rightarrow> py_error + ('a \<times> 'a list)" where
  "heappop heap =
     (if heap = [] then Inl IndexError
      else Inr (Min (set heap), remove1 (Min (set heap)) heap))"

text \<open>The body of the \<^verbatim>\<open>for\<close> loop over the neighbours (lines 150 to 167), for one record.\<close>

definition push_neighbor ::
  "('n \<rightharpoonup> real) \<Rightarrow> real \<Rightarrow> 'n waypoint list \<Rightarrow> 'n entry list \<Rightarrow> 'n edge \<Rightarrow> 'n entry list" where
  "push_neighbor visited current_cost path_info priority_queue e =
     (let neighbor = edge_to e;
          new_cost = current_cost + edge_cost e
      in if (case visited neighbor of None \<Rightarrow> True | Some best \<Rightarrow> best > new_cost)
         then
           let prev_distance = (if path_info \<noteq> [] then wp_distance (last path_info) else 0);
               prev_toll = (if path_info \<noteq> [] then wp_toll (last path_info) else 0);
               new_path_info = path_info @
                 [(neighbor, new_cost, prev_distance + edge_distance e, prev_toll + edge_toll e,
                   if edge_highway e \<noteq> [] then edge_highway e else ''Local Road'')]
           in heappush priority_queue (new_cost, neighbor, new_path_info)
         else priority_queue)"

definition explore ::
  "('n \<rightharpoonup> 'n edge list) \<Rightarrow> ('n \<rightharpoonup> real) \<Rightarrow> real \<Rightarrow> 'n \<Rightarrow> 'n waypoint list \<Rightarrow>
     'n entry list \<Rightarrow> 'n entry list" where
  "explore g visited current_cost current_location path_info priority_queue =
     (case g current_location of
        None \<Rightarrow> priority_queue
      | Some neighbors \<Rightarrow>
          foldl (push_neighbor visited current_cost path_info) priority_queue neighbors)"

text \<open>
  The \<^verbatim>\<open>while priority_queue\<close> loop (lines 95 to 179). The loop need not end (a cycle of
  negative cost is explored forever), so it is a partial function: \<open>None\<close> is a search
  that does not return.
\<close>

partial_function (option) ucs_loop ::
  "('n::linorder \<rightharpoonup> 'n edge list) \<Rightarrow> 'n \<Rightarrow> 'n entry list \<Rightarrow> ('n \<rightharpoonup> real) \<Rightarrow>
     ((py_error + 'n outcome) \<times> notice list) option" where
  "ucs_loop g goal_loc priority_queue visited =
     (if priority_queue = []
      then Some (Inr (None, None, None, None), [NoRouteFound])
      else
        (case heappop priority_queue of
           Inl err \<Rightarrow> Some (Inl err, [])
         | Inr (popped, rest) \<Rightarrow>
             (let current_cost = fst popped;
                  current_location = fst (snd popped);
                  path_info = snd (snd popped)
              in if (case visited current_location of
                       None \<Rightarrow> False | Some best \<Rightarrow> best \<le> current_cost)
                 then ucs_loop g goal_loc rest visited
                 else
                   if current_location = goal_loc
                   then
                     (if path_info = [] then Some (Inl IndexError, [])
                      else Some (Inr (Some path_info, Some current_cost,
                                      Some (wp_distance (last path_info)),
                                      Some (wp_toll (last path_info))), []))
                   else
                     ucs_loop g goal_loc
                       (explore g (visited(current_location \<mapsto> current_cost))
                          current_cost current_location path_info rest)
                       (visited(current_location \<mapsto> current_cost)))))"

declare ucs_loop.simps [code]

text \<open>
  \<^verbatim>\<open>ucs_search(start, goal)\<close>. The parameters \<^verbatim>\<open>show_steps\<close> and \<^verbatim>\<open>delay\<close> only drive the
  display and are left out. The result is the returned tuple (or the exception raised),
  the failure lines printed, and the navigator with \<^verbatim>\<open>self.start\<close> and \<^verbatim>\<open>self.goal\<close> set.
\<close>

definition ucs_search ::
  "'n::linorder navigator \<Rightarrow> 'n \<Rightarrow> 'n \<Rightarrow>
     ((py_error + 'n outcome) \<times> notice list \<times> 'n navigator) option" where
  "ucs_search nav start_loc goal_loc =
     (let nav1 = nav\<lparr>start := Some start_loc, goal := Some goal_loc\<rparr>
      in if graph nav1 start_loc = None \<or> graph nav1 goal_loc = None
         then Some (Inr (None, None, None, None), [LocationNotFound], nav1)
         else
           (case ucs_loop (graph nav1) goal_loc
                   [(0, start_loc, [(start_loc, 0, 0, 0, ''Starting Point'')])] Map.empty of
              None \<Rightarrow> None
            | Some (answer, printed) \<Rightarrow> Some (answer, printed, nav1)))"

section \<open>Trip estimates\<close>

text \<open>
  The three figures \<^verbatim>\<open>analyze_algorithm\<close> derives (lines 219 to 227), computed only in
  the branch \<^verbatim>\<open>if path_info and total_cost is not None\<close>: the triple is
  (estimated hours, fuel cost, total trip cost). In that branch a total distance or toll
  that is \<^verbatim>\<open>None\<close> raises \<^verbatim>\<open>TypeError\<close> (lines 190 and 191 format them as numbers).
\<close>

definition avg_speed :: real where
  "avg_speed = 60"

definition analyze_algorithm ::
  "'n waypoint list option \<Rightarrow> real option \<Rightarrow> real option \<Rightarrow> real option \<Rightarrow>
     py_error + (real \<times> real \<times> real) option" where
  "analyze_algorithm path_info total_cost total_distance total_toll =
     (if (case path_info of None \<Rightarrow> False | Some p \<Rightarrow> p \<noteq> []) \<and> total_cost \<noteq> None
      then
        (case (total_distance, total_toll) of
           (Some d, Some t) \<Rightarrow>
             (let estimated_hours = d / avg_speed;
                  fuel_cost = d * 2.5
              in Inr (Some (estimated_hours, fuel_cost, t + fuel_cost)))
         | _ \<Rightarrow> Inl TypeError)
      else Inr None)"

section \<open>Notions used to state the properties\<close>

text \<open>What a caller sees of a search: the returned value, the lines printed, the total cost.\<close>

definition search_answer ::
  "((py_error + 'n outcome) \<times> notice list \<times> 'n navigator) option \<Rightarrow> (py_error + 'n outcome) option" where
  "search_answer r = map_option fst r"

definition search_printed ::
  "((py_error + 'n outcome) \<times> notice list \<times> 'n navigator) option \<Rightarrow> notice list option" where
  "search_printed r = map_option (\<lambda>x. fst (snd x)) r"

definition search_total_cost ::
  "((py_error + 'n outcome) \<times> notice list \<times> 'n navigator) option \<Rightarrow> real option" where
  "search_total_cost r =
     (case r of Some (Inr (path, total_cost, total_distance, total_toll), printed) \<Rightarrow> total_cost
      | _ \<Rightarrow> None)"

text \<open>The adjacency list of a location, empty when the location has no entry.\<close>

definition adjacency :: "('n \<rightharpoonup> 'n edge list) \<Rightarrow> 'n \<Rightarrow> 'n edge list" where
  "adjacency g u = (case g u of None \<Rightarrow> [] | Some adj \<Rightarrow> adj)"

text \<open>
  A route from \<open>u\<close> to \<open>v\<close> is a list of adjacency records, each taken from the list of the
  location the previous one leads to. Parallel highways are distinct records, so a route
  is a list of records and not of locations.
\<close>

fun walk :: "('n \<rightharpoonup> 'n edge list) \<Rightarrow> 'n \<Rightarrow> 'n edge list \<Rightarrow> 'n \<Rightarrow> bool" where
  "walk g u [] v = (u = v)"
| "walk g u (e # es) v = (e \<in> set (adjacency g u) \<and> walk g (edge_to e) es v)"

definition path_nodes :: "'n \<Rightarrow> 'n edge list \<Rightarrow> 'n list" where
  "path_nodes u es = u # map edge_to es"

definition path_cost :: "'n edge list \<Rightarrow> real" where
  "path_cost es = sum_list (map edge_cost es)"

definition path_distance :: "'n edge list \<Rightarrow> real" where
  "path_distance es = sum_list (map edge_distance es)"

definition path_toll :: "'n edge list \<Rightarrow> real" where
  "path_toll es = sum_list (map edge_toll es)"

definition simple_path :: "('n \<rightharpoonup> 'n edge list) \<Rightarrow> 'n \<Rightarrow> 'n edge list \<Rightarrow> 'n \<Rightarrow> bool" where
  "simple_path g u es v = (walk g u es v \<and> distinct (path_nodes u es))"

definition nonneg_costs :: "('n \<rightharpoonup> 'n edge list) \<Rightarrow> bool" where
  "nonneg_costs g = (\<forall>u. \<forall>e \<in> set (adjacency g u). 0 \<le> edge_cost e)"

text \<open>The path list the search builds along a route: line 91, then lines 159 to 165.\<close>

definition start_waypoint :: "'n \<Rightarrow> 'n waypoint" where
  "start_waypoint s = (s, 0, 0, 0, ''Starting Point'')"

definition highway_label :: "'n edge \<Rightarrow> string" where
  "highway_label e = (if edge_highway e \<noteq> [] then edge_highway e else ''Local Road'')"

definition next_waypoint :: "'n waypoint \<Rightarrow> 'n edge \<Rightarrow> 'n waypoint" where
  "next_waypoint w e =
     (edge_to e, wp_cost w + edge_cost e, wp_distance w + edge_distance e,
      wp_toll w + edge_toll e, highway_label e)"

fun ledger_from :: "'n waypoint \<Rightarrow> 'n edge list \<Rightarrow> 'n waypoint list" where
  "ledger_from w [] = [w]"
| "ledger_from w (e # es) = w # ledger_from (next_waypoint w e) es"

text \<open>Consecutive waypoints of a path list are joined by an adjacency record of the graph.\<close>

fun follows_roads :: "('n \<rightharpoonup> 'n edge list) \<Rightarrow> 'n waypoint list \<Rightarrow> bool" where
  "follows_roads g (w1 # w2 # ws) =
     ((\<exists>e \<in> set (adjacency g (wp_location w1)). w2 = next_waypoint w1 e) \<and>
      follows_roads g (w2 # ws))"
| "follows_roads g ws = True"

subsection \<open>Loop invariants\<close>

text \<open>The test of line 100: the popped entry is no better than the cost already recorded.\<close>

definition stale :: "('n \<rightharpoonup> real) \<Rightarrow> 'n entry \<Rightarrow> bool" where
  "stale visited entry =
     (case visited (fst (snd entry)) of None \<Rightarrow> False | Some best \<Rightarrow> best \<le> fst entry)"

text \<open>The test of line 154 and the entry pushed at line 167.\<close>

definition pushable :: "('n \<rightharpoonup> real) \<Rightarrow> real \<Rightarrow> 'n edge \<Rightarrow> bool" where
  "pushable visited current_cost e =
     (case visited (edge_to e) of None \<Rightarrow> True | Some best \<Rightarrow> best > current_cost + edge_cost e)"

definition new_entry :: "real \<Rightarrow> 'n waypoint list \<Rightarrow> 'n edge \<Rightarrow> 'n entry" where
  "new_entry current_cost path_info e =
     (current_cost + edge_cost e, edge_to e,
      path_info @
        [(edge_to e, current_cost + edge_cost e,
          (if path_info \<noteq> [] then wp_distance (last path_info) else 0) + edge_distance e,
          (if path_info \<noteq> [] then wp_toll (last path_info) else 0) + edge_toll e,
          if edge_highway e \<noteq> [] then edge_highway e else ''Local Road'')])"

text \<open>Every queue entry records a route from the start and the path list built along it.\<close>

definition entry_ok :: "('n \<rightharpoonup> 'n edge list) \<Rightarrow> 'n \<Rightarrow> 'n entry \<Rightarrow> bool" where
  "entry_ok g s x =
     (\<exists>es. walk g s es (fst (snd x)) \<and> snd (snd x) = ledger_from (start_waypoint s) es \<and>
           fst x = path_cost es)"

definition queue_ok :: "('n \<rightharpoonup> 'n edge list) \<Rightarrow> 'n \<Rightarrow> 'n entry list \<Rightarrow> ('n \<rightharpoonup> real) \<Rightarrow> bool" where
  "queue_ok g s q v = (\<forall>x \<in> set q. entry_ok g s x)"

text \<open>
  The invariant of the search on a graph without negative costs: queue entries record
  simple routes through visited locations; a recorded cost is a lower bound of every
  route to that location; the start is visited or queued; and every record leaving a
  visited location leads to a visited location or has a queue entry that is no dearer.
\<close>

definition entry_simple :: "('n \<rightharpoonup> 'n edge list) \<Rightarrow> 'n \<Rightarrow> ('n \<rightharpoonup> real) \<Rightarrow> 'n entry \<Rightarrow> bool" where
  "entry_simple g s v x =
     (\<exists>es. walk g s es (fst (snd x)) \<and> snd (snd x) = ledger_from (start_waypoint s) es \<and>
           fst x = path_cost es \<and> distinct (path_nodes s es) \<and>
           set (butlast (path_nodes s es)) \<subseteq> dom v)"

definition lower_bounds :: "('n \<rightharpoonup> 'n edge list) \<Rightarrow> 'n \<Rightarrow> ('n \<rightharpoonup> real) \<Rightarrow> bool" where
  "lower_bounds g s v = (\<forall>n c es. v n = Some c \<longrightarrow> walk g s es n \<longrightarrow> c \<le> path_cost es)"

definition start_covered :: "'n \<Rightarrow> 'n entry list \<Rightarrow> ('n \<rightharpoonup> real) \<Rightarrow> bool" where
  "start_covered s q v = (v s = None \<longrightarrow> (\<exists>x \<in> set q. fst (snd x) = s \<and> fst x \<le> 0))"

definition border_covered :: "('n \<rightharpoonup> 'n edge list) \<Rightarrow> 'n entry list \<Rightarrow> ('n \<rightharpoonup> real) \<Rightarrow> bool" where
  "border_covered g q v =
     (\<forall>u cu. v u = Some cu \<longrightarrow>
        (\<forall>e \<in> set (adjacency g u).
           v (edge_to e) \<noteq> None \<or>
           (\<exists>x \<in> set q. fst (snd x) = edge_to e \<and> fst x \<le> cu + edge_cost e)))"

definition dijkstra_inv ::
  "('n \<rightharpoonup> 'n edge list) \<Rightarrow> 'n \<Rightarrow> 'n entry list \<Rightarrow> ('n \<rightharpoonup> real) \<Rightarrow> bool" where
  "dijkstra_inv g s q v =
     ((\<forall>x \<in> set q. entry_simple g s v x) \<and> lower_bounds g s v \<and> start_covered s q v \<and>
      border_covered g q v)"

subsection \<open>Example networks\<close>

definition abc_network :: "string navigator" where
  "abc_network =
     add_highway ''A'' ''C'' 200 1.0 0 ''AC''
       (add_highway ''B'' ''C'' 55 1.1 95 ''BC''
         (add_highway ''A'' ''B'' 80 1.3 180 ''AB''
           (add_location ''C'' ''Gamma''
             (add_location ''B'' ''Beta'' (add_location ''A'' ''Alpha'' init)))))"

definition two_towns :: "string navigator" where
  "two_towns = add_location ''B'' ''Beta'' (add_location ''A'' ''Alpha'' init)"

definition downhill :: "string navigator" where
  "downhill = add_highway ''A'' ''B'' (- 5) 1 0 ''AB'' init"

definition roadside :: "string navigator" where
  "roadside = add_highway ''X'' ''Y'' 10 1 0 ''XY'' init"

definition ring_road :: "string navigator" where
  "ring_road = add_highway ''A'' ''A'' 1 1 0 ''Ring'' (add_location ''A'' ''Alpha'' init)"

text \<open>Two registered locations and a single highway between them.\<close>

definition single_highway ::
  "'n \<Rightarrow> 'n \<Rightarrow> string \<Rightarrow> string \<Rightarrow> real \<Rightarrow> real \<Rightarrow> real \<Rightarrow> string \<Rightarrow> 'n navigator" where
  "single_highway a b name_a name_b distance_km traffic_factor toll_php highway_name =
     add_highway a b distance_km traffic_factor toll_php highway_name
       (add_location b name_b (add_location a name_a init))"

section \<open>The loop, one iteration at a time\<close>

lemma ucs_loop_empty:
  "ucs_loop g t [] v = Some (Inr (None, None, None, None), [NoRouteFound])"
  by (subst ucs_loop.simps) simp

lemma ucs_loop_pop:
  assumes "q \<noteq> []" and "Min (set q) = (c, n, L)"
  shows "ucs_loop g t q v =
     (if stale v (c, n, L) then ucs_loop g t (remove1 (c, n, L) q) v
      else if n = t
        then (if L = [] then Some (Inl IndexError, [])
              else Some (Inr (Some L, Some c, Some (wp_distance (last L)),
                              Some (wp_toll (last L))), []))
        else ucs_loop g t (explore g (v(n \<mapsto> c)) c n L (remove1 (c, n, L) q)) (v(n \<mapsto> c)))"
  using assms by (subst ucs_loop.simps) (simp add: heappop_def Let_def stale_def)

text \<open>
  An invariant of the loop that holds at entry holds when the loop returns; \<open>P\<close> is what
  the invariant gives about the value returned on each of the three exits.
\<close>

lemma ucs_loop_rule:
  assumes run: "ucs_loop g t q0 v0 = Some r"
    and init: "I q0 v0"
    and skip: "\<And>q v c n L. I q v \<Longrightarrow> q \<noteq> [] \<Longrightarrow> Min (set q) = (c, n, L) \<Longrightarrow>
                 stale v (c, n, L) \<Longrightarrow> I (remove1 (c, n, L) q) v"
    and expand: "\<And>q v c n L. I q v \<Longrightarrow> q \<noteq> [] \<Longrightarrow> Min (set q) = (c, n, L) \<Longrightarrow>
                 \<not> stale v (c, n, L) \<Longrightarrow> n \<noteq> t \<Longrightarrow>
                 I (explore g (v(n \<mapsto> c)) c n L (remove1 (c, n, L) q)) (v(n \<mapsto> c))"
    and exhausted: "\<And>v. I [] v \<Longrightarrow> P (Inr (None, None, None, None), [NoRouteFound])"
    and found: "\<And>q v c L. I q v \<Longrightarrow> q \<noteq> [] \<Longrightarrow> Min (set q) = (c, t, L) \<Longrightarrow>
                 \<not> stale v (c, t, L) \<Longrightarrow> L \<noteq> [] \<Longrightarrow>
                 P (Inr (Some L, Some c, Some (wp_distance (last L)), Some (wp_toll (last L))), [])"
    and raised: "\<And>q v c. I q v \<Longrightarrow> q \<noteq> [] \<Longrightarrow> Min (set q) = (c, t, []) \<Longrightarrow>
                 \<not> stale v (c, t, []) \<Longrightarrow> P (Inl IndexError, [])"
  shows "P r"
proof -
  have "g = g \<longrightarrow> t = t \<longrightarrow> I q0 v0 \<longrightarrow> P r"
  proof (rule ucs_loop.raw_induct
      [where P = "\<lambda>g' t' q v r. g' = g \<longrightarrow> t' = t \<longrightarrow> I q v \<longrightarrow> P r", OF _ run])
    fix loop g' t' q v r
    assume 1: "\<And>g' t' q v r. loop g' t' q v = Some r \<Longrightarrow> g' = g \<longrightarrow> t' = t \<longrightarrow> I q v \<longrightarrow> P r"
      "(if q = []
      then Some (Inr (None, None, None, None), [NoRouteFound])
      else case heappop q of Inl err \<Rightarrow> Some (Inl err, [])
           | Inr (popped, rest) \<Rightarrow>
               let current_cost = fst popped;
                   current_location = fst (snd popped);
                   path_info = snd (snd popped)
               in if case v current_location of None \<Rightarrow> False
                     | Some best \<Rightarrow> best \<le> current_cost
                  then loop g' t' rest v
                  else if current_location = t'
                       then if path_info = [] then Some (Inl IndexError, [])
                            else Some
                                  (Inr (Some path_info, Some current_cost,
  Some (wp_distance (last path_info)), Some (wp_toll (last path_info))),
                                   [])
                       else loop g' t'
                             (explore g'
                               (v(current_location \<mapsto> current_cost))
                               current_cost current_location path_info rest)
                             (v(current_location \<mapsto> current_cost))) =
     Some r"
    show "g' = g \<longrightarrow> t' = t \<longrightarrow> I q v \<longrightarrow> P r"
    proof (intro impI)
      assume eq: "g' = g" "t' = t" and inv: "I q v"
      show "P r"
      proof (cases "q = []")
        case True
        with 1(2) inv exhausted show ?thesis by auto
      next
        case False
        obtain c n L where m: "Min (set q) = (c, n, L)" by (cases "Min (set q)") auto
        have body:
          "(if stale v (c, n, L) then loop g' t' (remove1 (c, n, L) q) v
            else if n = t'
              then (if L = [] then Some (Inl IndexError, [])
                    else Some (Inr (Some L, Some c, Some (wp_distance (last L)),
                                    Some (wp_toll (last L))), []))
              else loop g' t' (explore g' (v(n \<mapsto> c)) c n L (remove1 (c, n, L) q))
                     (v(n \<mapsto> c))) = Some r"
          using 1(2) False m by (simp add: heappop_def stale_def cong: option.case_cong)
        show ?thesis
        proof (cases "stale v (c, n, L)")
          case True
          with body have "loop g' t' (remove1 (c, n, L) q) v = Some r" by simp
          moreover have "I (remove1 (c, n, L) q) v" using skip[OF inv False m True] .
          ultimately show ?thesis using 1(1) eq by blast
        next
          case ns: False
          show ?thesis
          proof (cases "n = t")
            case True
            show ?thesis
            proof (cases "L = []")
              case True
              with body ns \<open>n = t\<close> eq have "r = (Inl IndexError, [])" by simp
              with raised[OF inv False _ _] m ns \<open>n = t\<close> True show ?thesis by simp
            next
              case ne: False
              with body ns True eq have
                "r = (Inr (Some L, Some c, Some (wp_distance (last L)),
                           Some (wp_toll (last L))), [])" by simp
              with found[OF inv False _ _ ne] m ns True show ?thesis by simp
            qed
          next
            case nt: False
            with body ns eq have
              "loop g' t' (explore g (v(n \<mapsto> c)) c n L (remove1 (c, n, L) q)) (v(n \<mapsto> c)) = Some r"
              by simp
            moreover have "I (explore g (v(n \<mapsto> c)) c n L (remove1 (c, n, L) q)) (v(n \<mapsto> c))"
              using expand[OF inv False m ns nt] .
            ultimately show ?thesis using 1(1) eq by blast
          qed
        qed
      qed
    qed
  qed
  with run init show ?thesis by blast
qed


section \<open>What one exploration adds to the queue\<close>

lemma set_push_neighbor:
  "set (push_neighbor v c L q e) =
     set q \<union> (if pushable v c e then {new_entry c L e} else {})"
  by (simp add: push_neighbor_def pushable_def new_entry_def heappush_def Let_def)

lemma set_foldl_push:
  "set (foldl (push_neighbor v c L) q es) =
     set q \<union> new_entry c L ` set (filter (pushable v c) es)"
  by (induction es arbitrary: q) (simp_all add: set_push_neighbor Un_assoc)

lemma set_explore:
  "set (explore g v c n L q) =
     set q \<union> new_entry c L ` set (filter (pushable v c) (adjacency g n))"
  by (simp add: explore_def adjacency_def set_foldl_push split: option.splits)

section \<open>Path lists and routes\<close>

lemma ledger_from_nonempty [simp]: "ledger_from w es \<noteq> []"
  by (cases es) simp_all

lemma hd_ledger_from [simp]: "hd (ledger_from w es) = w"
  by (cases es) simp_all

lemma length_ledger_from [simp]: "length (ledger_from w es) = Suc (length es)"
  by (induction es arbitrary: w) simp_all

lemma ledger_from_snoc:
  "ledger_from w (es @ [e]) = ledger_from w es @ [next_waypoint (last (ledger_from w es)) e]"
  by (induction es arbitrary: w) simp_all

lemma last_ledger_cost: "wp_cost (last (ledger_from w es)) = wp_cost w + path_cost es"
  by (induction es arbitrary: w) (simp_all add: path_cost_def next_waypoint_def wp_cost_def)

lemma last_ledger_distance:
  "wp_distance (last (ledger_from w es)) = wp_distance w + path_distance es"
  by (induction es arbitrary: w) (simp_all add: path_distance_def next_waypoint_def wp_distance_def)

lemma last_ledger_toll: "wp_toll (last (ledger_from w es)) = wp_toll w + path_toll es"
  by (induction es arbitrary: w) (simp_all add: path_toll_def next_waypoint_def wp_toll_def)

lemma map_location_ledger:
  "map wp_location (ledger_from w es) = path_nodes (wp_location w) es"
  by (induction es arbitrary: w) (simp_all add: path_nodes_def next_waypoint_def wp_location_def)

lemma walk_snoc:
  "walk g u (es @ [e]) v \<longleftrightarrow> (\<exists>m. walk g u es m \<and> e \<in> set (adjacency g m)) \<and> edge_to e = v"
  by (induction es arbitrary: u) auto

lemma walk_end: "walk g u es v \<Longrightarrow> last (path_nodes u es) = v"
  by (induction es arbitrary: u) (auto simp add: path_nodes_def)

lemma start_waypoint_fields [simp]:
  "wp_location (start_waypoint s) = s" "wp_cost (start_waypoint s) = 0"
  "wp_distance (start_waypoint s) = 0" "wp_toll (start_waypoint s) = 0"
  by (simp_all add: start_waypoint_def wp_location_def wp_cost_def wp_distance_def wp_toll_def)

section \<open>Queue entries record routes\<close>

lemma new_entry_ledger:
  assumes "L = ledger_from (start_waypoint s) es" and "c = path_cost es"
  shows "new_entry c L e =
           (path_cost (es @ [e]), edge_to e, ledger_from (start_waypoint s) (es @ [e]))"
  using assms last_ledger_cost[of "start_waypoint s" es]
  by (simp add: new_entry_def ledger_from_snoc next_waypoint_def highway_label_def path_cost_def)

lemma entry_ok_push:
  assumes "entry_ok g s (c, n, L)" and "e \<in> set (adjacency g n)"
  shows "entry_ok g s (new_entry c L e)"
proof -
  from assms(1) obtain es where es: "walk g s es n" "L = ledger_from (start_waypoint s) es"
    "c = path_cost es" by (auto simp add: entry_ok_def)
  have "walk g s (es @ [e]) (edge_to e)" using es(1) assms(2) by (auto simp add: walk_snoc)
  then show ?thesis unfolding entry_ok_def new_entry_ledger[OF es(2,3)] by auto
qed

lemma Min_in_queue: "q \<noteq> [] \<Longrightarrow> Min (set q) \<in> set q"
  by (simp add: Min_in)

lemma queue_ok_skip:
  "queue_ok g s q v \<Longrightarrow> queue_ok g s (remove1 x q) v'"
  by (auto simp add: queue_ok_def dest: notin_set_remove1)

lemma queue_ok_expand:
  assumes "queue_ok g s q v" and "q \<noteq> []" and "Min (set q) = (c, n, L)"
  shows "queue_ok g s (explore g v' c n L (remove1 (c, n, L) q)) v'"
proof -
  have "entry_ok g s (c, n, L)" using assms Min_in_queue[of q] by (auto simp add: queue_ok_def)
  then show ?thesis using assms(1)
    by (auto simp add: queue_ok_def set_explore entry_ok_push dest: notin_set_remove1)
qed

lemma queue_ok_init: "queue_ok g s [(0, s, [(s, 0, 0, 0, ''Starting Point'')])] Map.empty"
  unfolding queue_ok_def entry_ok_def
  by (auto intro!: exI[of _ "[]"] simp add: start_waypoint_def path_cost_def)


section \<open>What a search can return\<close>

lemma ucs_loop_result:
  assumes "ucs_loop g t q v = Some r" and "queue_ok g s q v"
  shows "r = (Inr (None, None, None, None), [NoRouteFound]) \<or>
         (\<exists>es. walk g s es t \<and>
            r = (Inr (Some (ledger_from (start_waypoint s) es), Some (path_cost es),
                      Some (path_distance es), Some (path_toll es)), []))"
proof (rule ucs_loop_rule[OF assms(1), where I = "queue_ok g s"])
  show "queue_ok g s q v" by fact
next
  fix q v c n L
  assume "queue_ok g s q v"
  then show "queue_ok g s (remove1 (c, n, L) q) v" by (rule queue_ok_skip)
next
  fix q v c n L
  assume "queue_ok g s q v" "q \<noteq> []" "Min (set q) = (c, n, L)"
  then show "queue_ok g s (explore g (v(n \<mapsto> c)) c n L (remove1 (c, n, L) q)) (v(n \<mapsto> c))"
    by (rule queue_ok_expand)
next
  fix q :: "'a entry list" and v :: "'a \<rightharpoonup> real" and c L
  assume a: "queue_ok g s q v" "q \<noteq> []" "Min (set q) = (c, t, L)"
  then have "entry_ok g s (c, t, L)" using Min_in_queue[of q] by (auto simp add: queue_ok_def)
  then obtain es where es: "walk g s es t" "L = ledger_from (start_waypoint s) es"
    "c = path_cost es" by (auto simp add: entry_ok_def)
  {
    assume "L \<noteq> []"
    have "(Inr (Some L, Some c, Some (wp_distance (last L)), Some (wp_toll (last L))), []) =
          (Inr (Some (ledger_from (start_waypoint s) es), Some (path_cost es),
                      Some (path_distance es), Some (path_toll es)), [])"
      using es by (simp add: last_ledger_distance last_ledger_toll)
    with es(1) show "(Inr (Some L, Some c, Some (wp_distance (last L)), Some (wp_toll (last L))), [])
           = (Inr (None, None, None, None), [NoRouteFound]) \<or>
         (\<exists>es. walk g s es t \<and>
            (Inr (Some L, Some c, Some (wp_distance (last L)), Some (wp_toll (last L))), [])
              = (Inr (Some (ledger_from (start_waypoint s) es), Some (path_cost es),
                      Some (path_distance es), Some (path_toll es)), []))"
      by (intro disjI2 exI[of _ es] conjI)
  }
next
  fix q :: "'a entry list" and v :: "'a \<rightharpoonup> real" and c
  assume a: "queue_ok g s q v" "q \<noteq> []" "Min (set q) = (c, t, [])"
  then have "entry_ok g s (c, t, [])" using Min_in_queue[of q] by (auto simp add: queue_ok_def)
  then have False using ledger_from_nonempty[of "start_waypoint s"]
    by (auto simp add: entry_ok_def simp del: ledger_from_nonempty dest!: sym[of "[]"])
  then show "(Inl IndexError, []) = (Inr (None, None, None, None), [NoRouteFound]) \<or>
         (\<exists>es. walk g s es t \<and>
            (Inl IndexError, [])
              = (Inr (Some (ledger_from (start_waypoint s) es), Some (path_cost es),
                      Some (path_distance es), Some (path_toll es)), []))" ..
qed simp

lemma ucs_search_cases:
  assumes "ucs_search nav s t = Some r"
  shows "(graph nav s = None \<or> graph nav t = None) \<and>
           r = (Inr (None, None, None, None), [LocationNotFound],
                nav\<lparr>start := Some s, goal := Some t\<rparr>)
         \<or> graph nav s \<noteq> None \<and> graph nav t \<noteq> None \<and>
           r = (Inr (None, None, None, None), [NoRouteFound],
                nav\<lparr>start := Some s, goal := Some t\<rparr>)
         \<or> graph nav s \<noteq> None \<and> graph nav t \<noteq> None \<and>
           (\<exists>es. walk (graph nav) s es t \<and>
              r = (Inr (Some (ledger_from (start_waypoint s) es), Some (path_cost es),
                        Some (path_distance es), Some (path_toll es)), [],
                   nav\<lparr>start := Some s, goal := Some t\<rparr>))"
proof (cases "graph nav s = None \<or> graph nav t = None")
  case True
  with assms show ?thesis by (auto simp add: ucs_search_def)
next
  case False
  with assms obtain a p where
    run: "ucs_loop (graph nav) t [(0, s, [(s, 0, 0, 0, ''Starting Point'')])] Map.empty = Some (a, p)"
    and r: "r = (a, p, nav\<lparr>start := Some s, goal := Some t\<rparr>)"
    by (auto simp add: ucs_search_def split: option.splits)
  from ucs_loop_result[OF run queue_ok_init] r False show ?thesis by auto
qed


lemma search_success:
  assumes "search_answer (ucs_search nav s t) = Some (Inr (Some L, Some c, Some d, Some toll))"
  shows "\<exists>es. walk (graph nav) s es t \<and> L = ledger_from (start_waypoint s) es \<and>
              c = path_cost es \<and> d = path_distance es \<and> toll = path_toll es"
proof -
  from assms obtain r where r: "ucs_search nav s t = Some r"
    and a: "fst r = Inr (Some L, Some c, Some d, Some toll)"
    by (auto simp add: search_answer_def)
  from ucs_search_cases[OF r] a show ?thesis by auto
qed

lemma search_success_present:
  assumes "search_answer (ucs_search nav s t) = Some (Inr (Some L, Some c, Some d, Some toll))"
  shows "graph nav s \<noteq> None \<and> graph nav t \<noteq> None \<and>
         search_printed (ucs_search nav s t) = Some []"
proof -
  from assms obtain r where r: "ucs_search nav s t = Some r"
    and a: "fst r = Inr (Some L, Some c, Some d, Some toll)"
    by (auto simp add: search_answer_def)
  from ucs_search_cases[OF r] a r show ?thesis by (auto simp add: search_printed_def)
qed

section \<open>The shape of a returned path list\<close>

lemma ledger_from_Cons: "ledger_from w es = w # tl (ledger_from w es)"
  by (cases es) simp_all

lemma next_waypoint_location [simp]: "wp_location (next_waypoint w e) = edge_to e"
  by (simp add: next_waypoint_def wp_location_def)

lemma follows_roads_ledger:
  "walk g (wp_location w) es v \<Longrightarrow> follows_roads g (ledger_from w es)"
proof (induction es arbitrary: w)
  case Nil
  then show ?case by simp
next
  case (Cons e es)
  then have "follows_roads g (ledger_from (next_waypoint w e) es)" by simp
  moreover have "e \<in> set (adjacency g (wp_location w))" using Cons.prems by simp
  ultimately show ?case
    by (subst (asm) ledger_from_Cons, simp, subst ledger_from_Cons, auto)
qed

lemma last_ledger_location:
  "walk g (wp_location w) es v \<Longrightarrow> wp_location (last (ledger_from w es)) = v"
  by (induction es arbitrary: w) simp_all

lemma take_ledger:
  "i \<le> length es \<Longrightarrow> take (Suc i) (ledger_from w es) = ledger_from w (take i es)"
proof (induction es arbitrary: w i)
  case Nil
  then show ?case by simp
next
  case (Cons e es)
  then show ?case by (cases i) simp_all
qed

lemma nth_ledger:
  assumes "i \<le> length es"
  shows "ledger_from w es ! i = last (ledger_from w (take i es))"
proof -
  have "ledger_from w es ! i = last (take (Suc i) (ledger_from w es))"
    using assms by (simp add: last_conv_nth min_def)
  then show ?thesis using assms by (simp add: take_ledger)
qed

lemma ledger_costs_above:
  assumes "nonneg_costs g"
  shows "walk g (wp_location w) es v \<Longrightarrow> \<forall>x \<in> set (ledger_from w es). wp_cost w \<le> wp_cost x"
proof (induction es arbitrary: w)
  case Nil
  then show ?case by simp
next
  case (Cons e es)
  then have e: "e \<in> set (adjacency g (wp_location w))"
    and w: "walk g (wp_location (next_waypoint w e)) es v" by simp_all
  from e assms have "0 \<le> edge_cost e" by (auto simp add: nonneg_costs_def)
  then have "wp_cost w \<le> wp_cost (next_waypoint w e)"
    by (simp add: next_waypoint_def wp_cost_def)
  with Cons.IH[OF w] show ?case by fastforce
qed

lemma ledger_costs_sorted:
  assumes "nonneg_costs g"
  shows "walk g (wp_location w) es v \<Longrightarrow> sorted (map wp_cost (ledger_from w es))"
proof (induction es arbitrary: w)
  case Nil
  then show ?case by simp
next
  case (Cons e es)
  then have e: "e \<in> set (adjacency g (wp_location w))"
    and w: "walk g (wp_location (next_waypoint w e)) es v" by simp_all
  from e assms have "0 \<le> edge_cost e" by (auto simp add: nonneg_costs_def)
  then have le: "wp_cost w \<le> wp_cost (next_waypoint w e)"
    by (simp add: next_waypoint_def wp_cost_def)
  have "\<forall>x \<in> set (ledger_from (next_waypoint w e) es). wp_cost w \<le> wp_cost x"
    using ledger_costs_above[OF assms w] le by fastforce
  with Cons.IH[OF w] show ?case by simp
qed


section \<open>Searches on the example networks\<close>

lemma abc_search:
  "search_answer (ucs_search abc_network ''A'' ''C'') =
     Some (Inr (Some [(''A'', 0, 0, 0, ''Starting Point''), (''B'', 122, 80, 180, ''AB''),
                      (''C'', 192, 135, 275, ''BC'')],
                Some 192, Some 135, Some 275))"
  by code_simp

lemma downhill_search:
  "search_answer (ucs_search downhill ''A'' ''B'') =
     Some (Inr (Some [(''A'', 0, 0, 0, ''Starting Point''), (''B'', - 5, - 5, 0, ''AB'')],
                Some (- 5), Some (- 5), Some 0))"
  by code_simp

lemma two_towns_search:
  "search_answer (ucs_search two_towns ''A'' ''B'') = Some (Inr (None, None, None, None))"
  "search_printed (ucs_search two_towns ''A'' ''B'') = Some [NoRouteFound]"
  by code_simp+

lemma init_search:
  "search_answer (ucs_search (init :: string navigator) ''A'' ''B'') = Some (Inr (None, None, None, None))"
  "search_printed (ucs_search (init :: string navigator) ''A'' ''B'') = Some [LocationNotFound]"
  by code_simp+

lemma one_road_loop:
  assumes "a \<noteq> b" and "g a = Some [(b, c, d, tf, toll, h)]"
  shows "ucs_loop g b [(0, a, [(a, 0, 0, 0, ''Starting Point'')])] Map.empty =
           Some (Inr (Some [(a, 0, 0, 0, ''Starting Point''),
                            (b, c, d, toll, if h \<noteq> [] then h else ''Local Road'')],
                      Some c, Some d, Some toll), [])"
proof -
  let ?w = "(a, 0 :: real, 0 :: real, 0 :: real, ''Starting Point'')"
  let ?L = "[?w, (b, c, d, toll, if h \<noteq> [] then h else ''Local Road'')]"
  have ex: "explore g (Map.empty(a \<mapsto> 0)) 0 a [?w] [] = [(c, b, ?L)]"
    using assms
    by (simp add: explore_def push_neighbor_def heappush_def edge_to_def edge_cost_def
        edge_distance_def edge_toll_def edge_highway_def wp_distance_def wp_toll_def Let_def)
  have "ucs_loop g b [(0, a, [?w])] Map.empty = ucs_loop g b [(c, b, ?L)] (Map.empty(a \<mapsto> 0))"
    using assms(1) by (subst ucs_loop_pop[where c = 0 and n = a and L = "[?w]"])
      (simp_all add: stale_def ex)
  also have "\<dots> = Some (Inr (Some ?L, Some c, Some d, Some toll), [])"
    using assms(1) by (subst ucs_loop_pop[where c = c and n = b and L = ?L])
      (simp_all add: stale_def wp_distance_def wp_toll_def)
  finally show ?thesis .
qed

lemma start_is_goal_loop:
  "ucs_loop g a [(0, a, [(a, 0, 0, 0, ''Starting Point'')])] Map.empty =
     Some (Inr (Some [(a, 0, 0, 0, ''Starting Point'')], Some 0, Some 0, Some 0), [])"
  by (subst ucs_loop_pop[where c = 0 and n = a and L = "[(a, 0, 0, 0, ''Starting Point'')]"])
    (simp_all add: stale_def wp_distance_def wp_toll_def)

lemma single_highway_graph:
  "a \<noteq> b \<Longrightarrow> graph (single_highway a b na nb d tf toll h) a =
      Some [(b, d * tf + toll / 10, d, tf, toll, h)]"
  "a \<noteq> b \<Longrightarrow> graph (single_highway a b na nb d tf toll h) b =
      Some [(a, d * tf + toll / 10, d, tf, toll, h)]"
  "graph (single_highway a a na nb d tf toll h) a \<noteq> None"
  by (simp_all add: single_highway_def add_highway_def add_location_def init_def
      append_record_def Let_def)

lemma single_highway_cost:
  "search_total_cost (ucs_search (single_highway a b na nb d tf toll h) a b) =
     Some (if a = b then 0 else d * tf + toll / 10)"
  "search_total_cost (ucs_search (single_highway a b na nb d tf toll h) b a) =
     Some (if a = b then 0 else d * tf + toll / 10)"
proof -
  show "search_total_cost (ucs_search (single_highway a b na nb d tf toll h) a b) =
     Some (if a = b then 0 else d * tf + toll / 10)"
  proof (cases "a = b")
    case True
    then show ?thesis using single_highway_graph(3)[of a na nb d tf toll h]
      by (auto simp add: ucs_search_def start_is_goal_loop search_total_cost_def)
  next
    case False
    then show ?thesis
      using single_highway_graph(1,2)[OF False, of na nb d tf toll h]
      by (simp add: ucs_search_def one_road_loop[OF False] search_total_cost_def)
  qed
  show "search_total_cost (ucs_search (single_highway a b na nb d tf toll h) b a) =
     Some (if a = b then 0 else d * tf + toll / 10)"
  proof (cases "a = b")
    case True
    then show ?thesis using single_highway_graph(3)[of a na nb d tf toll h]
      by (auto simp add: ucs_search_def start_is_goal_loop search_total_cost_def)
  next
    case False
    then have ba: "b \<noteq> a" by simp
    show ?thesis
      using single_highway_graph(1,2)[OF False, of na nb d tf toll h] False
      by (simp add: ucs_search_def one_road_loop[OF ba] search_total_cost_def)
  qed
qed


lemma roadside_search:
  "search_answer (ucs_search roadside ''X'' ''Y'') =
     Some (Inr (Some [(''X'', 0, 0, 0, ''Starting Point''), (''Y'', 10, 10, 0, ''XY'')],
                Some 10, Some 10, Some 0))"
  "locations roadside ''X'' = None"
  by code_simp+

lemma search_ignores_names:
  "search_answer (ucs_search (nav\<lparr>locations := names\<rparr>) s t) = search_answer (ucs_search nav s t)"
  "search_printed (ucs_search (nav\<lparr>locations := names\<rparr>) s t) = search_printed (ucs_search nav s t)"
  by (auto simp add: ucs_search_def search_answer_def search_printed_def Let_def split: option.splits)

lemma printed_unknown_iff:
  "search_printed (ucs_search nav s t) = Some [LocationNotFound] \<longleftrightarrow>
     graph nav s = None \<or> graph nav t = None"
proof
  assume p: "search_printed (ucs_search nav s t) = Some [LocationNotFound]"
  then obtain r where r: "ucs_search nav s t = Some r" and "fst (snd r) = [LocationNotFound]"
    by (auto simp add: search_printed_def)
  with ucs_search_cases[OF r] show "graph nav s = None \<or> graph nav t = None" by auto
next
  assume "graph nav s = None \<or> graph nav t = None"
  then show "search_printed (ucs_search nav s t) = Some [LocationNotFound]"
    by (auto simp add: ucs_search_def search_printed_def)
qed

lemma add_highway_graph:
  "graph (add_highway a b d tf toll h nav) =
     (if a = b
      then (graph nav)(a \<mapsto> adjacency (graph nav) a @
              [(b, d * tf + toll / 10, d, tf, toll, h), (a, d * tf + toll / 10, d, tf, toll, h)])
      else (graph nav)(a \<mapsto> adjacency (graph nav) a @ [(b, d * tf + toll / 10, d, tf, toll, h)],
                       b \<mapsto> adjacency (graph nav) b @ [(a, d * tf + toll / 10, d, tf, toll, h)]))"
  by (auto simp add: add_highway_def append_record_def adjacency_def Let_def fun_upd_twist
      split: option.splits)

lemma add_highway_locations: "locations (add_highway a b d tf toll h nav) = locations nav"
  by (simp add: add_highway_def Let_def)

lemma abc_graph:
  "graph abc_network ''A'' = Some [(''B'', 122, 80, 1.3, 180, ''AB''), (''C'', 200, 200, 1, 0, ''AC'')]"
  "graph abc_network ''B'' = Some [(''A'', 122, 80, 1.3, 180, ''AB''), (''C'', 70, 55, 1.1, 95, ''BC'')]"
  "graph abc_network ''C'' = Some [(''B'', 70, 55, 1.1, 95, ''BC''), (''A'', 200, 200, 1, 0, ''AC'')]"
  by (simp_all add: abc_network_def add_highway_def add_location_def init_def append_record_def)

section \<open>The search on graphs without negative costs\<close>

lemma path_cost_snoc: "path_cost (es @ [e]) = path_cost es + edge_cost e"
  by (simp add: path_cost_def)

lemma path_nodes_snoc: "path_nodes u (es @ [e]) = path_nodes u es @ [edge_to e]"
  by (simp add: path_nodes_def)

lemma path_nodes_nonempty [simp]: "path_nodes u es \<noteq> []"
  by (simp add: path_nodes_def)

lemma Min_cost_le:
  assumes "q \<noteq> []" and "Min (set q) = (c, n, L)" and "x \<in> set q"
  shows "c \<le> fst x"
proof -
  have "Min (set q) \<le> x" using assms(3) by simp
  then show ?thesis using assms(2) by (auto simp add: less_eq_prod_def)
qed

lemma in_rest:
  "x \<in> set q \<Longrightarrow> x \<noteq> m \<Longrightarrow> x \<in> set (remove1 m q)"
  by simp

lemma in_rest_explore:
  "x \<in> set q \<Longrightarrow> x \<noteq> m \<Longrightarrow> x \<in> set (explore g v c n L (remove1 m q))"
  by (simp add: set_explore)

lemma pushed_in_explore:
  "e \<in> set (adjacency g n) \<Longrightarrow> pushable v c e \<Longrightarrow> new_entry c L e \<in> set (explore g v c n L q)"
  by (simp add: set_explore)

lemma new_entry_fields [simp]:
  "fst (new_entry c L e) = c + edge_cost e" "fst (snd (new_entry c L e)) = edge_to e"
  by (simp_all add: new_entry_def)

text \<open>A route to an unvisited location passes an entry of the queue.\<close>

lemma route_covered:
  assumes nn: "nonneg_costs g" and lb: "lower_bounds g s v" and sc: "start_covered s q v"
    and bc: "border_covered g q v"
  shows "walk g s es x \<Longrightarrow> v x = None \<Longrightarrow> \<exists>y \<in> set q. fst y \<le> path_cost es"
proof (induction es arbitrary: x rule: rev_induct)
  case Nil
  then have "x = s" by simp
  with Nil sc show ?case by (auto simp add: start_covered_def path_cost_def)
next
  case (snoc e es)
  from snoc.prems(1) obtain u where u: "walk g s es u" "e \<in> set (adjacency g u)" "edge_to e = x"
    by (auto simp add: walk_snoc)
  from nn u(2) have e0: "0 \<le> edge_cost e" by (auto simp add: nonneg_costs_def)
  show ?case
  proof (cases "v u")
    case None
    from snoc.IH[OF u(1) None] obtain y where "y \<in> set q" "fst y \<le> path_cost es" by blast
    with e0 show ?thesis by (auto simp add: path_cost_snoc intro!: bexI[of _ y])
  next
    case (Some cu)
    with lb u(1) have cu: "cu \<le> path_cost es" by (auto simp add: lower_bounds_def)
    from bc Some u(2) have
      "v (edge_to e) \<noteq> None \<or> (\<exists>y \<in> set q. fst (snd y) = edge_to e \<and> fst y \<le> cu + edge_cost e)"
      unfolding border_covered_def by blast
    with u(3) snoc.prems(2) obtain y where "y \<in> set q" "fst y \<le> cu + edge_cost e" by auto
    with cu show ?thesis by (auto simp add: path_cost_snoc intro!: bexI[of _ y])
  qed
qed

lemma popped_is_cheapest:
  assumes nn: "nonneg_costs g" and inv: "dijkstra_inv g s q v"
    and q: "q \<noteq> []" and m: "Min (set q) = (c, n, L)" and vn: "v n = None"
    and w: "walk g s es n"
  shows "c \<le> path_cost es"
proof -
  from inv have "lower_bounds g s v" "start_covered s q v" "border_covered g q v"
    by (simp_all add: dijkstra_inv_def)
  from route_covered[OF nn this w vn] obtain y where "y \<in> set q" "fst y \<le> path_cost es" by blast
  with Min_cost_le[OF q m] show ?thesis by fastforce
qed

lemma popped_entry_simple:
  assumes "dijkstra_inv g s q v" and "q \<noteq> []" and "Min (set q) = (c, n, L)"
  shows "\<exists>es. walk g s es n \<and> L = ledger_from (start_waypoint s) es \<and> c = path_cost es \<and>
           distinct (path_nodes s es) \<and> set (butlast (path_nodes s es)) \<subseteq> dom v"
proof -
  have "(c, n, L) \<in> set q" using Min_in_queue[OF assms(2)] assms(3) by simp
  with assms(1) have "entry_simple g s v (c, n, L)" by (simp add: dijkstra_inv_def)
  then show ?thesis by (simp add: entry_simple_def)
qed

lemma fresh_unvisited:
  assumes inv: "dijkstra_inv g s q v" and q: "q \<noteq> []" and m: "Min (set q) = (c, n, L)"
    and ns: "\<not> stale v (c, n, L)"
  shows "v n = None"
proof (cases "v n")
  case None
  then show ?thesis .
next
  case (Some b)
  from popped_entry_simple[OF inv q m] obtain es where "walk g s es n" "c = path_cost es" by blast
  moreover from inv have "lower_bounds g s v" by (simp add: dijkstra_inv_def)
  ultimately have "b \<le> c" using Some by (auto simp add: lower_bounds_def)
  with ns Some show ?thesis by (simp add: stale_def)
qed


lemma set_butlast_last: "xs \<noteq> [] \<Longrightarrow> set xs = set (butlast xs) \<union> {last xs}"
  by (cases xs rule: rev_cases) auto

lemma entry_simple_mono:
  "entry_simple g s v x \<Longrightarrow> dom v \<subseteq> dom v' \<Longrightarrow> entry_simple g s v' x"
  unfolding entry_simple_def by blast

lemma dijkstra_inv_init:
  "dijkstra_inv g s [(0, s, [(s, 0, 0, 0, ''Starting Point'')])] Map.empty"
proof -
  have "entry_simple g s Map.empty (0, s, [(s, 0, 0, 0, ''Starting Point'')])"
    unfolding entry_simple_def
    by (intro exI[of _ "[]"]) (simp add: start_waypoint_def path_cost_def path_nodes_def)
  then show ?thesis
    by (simp add: dijkstra_inv_def lower_bounds_def start_covered_def border_covered_def)
qed

lemma dijkstra_inv_skip:
  assumes inv: "dijkstra_inv g s q v" and q: "q \<noteq> []" and m: "Min (set q) = (c, n, L)"
    and st: "stale v (c, n, L)"
  shows "dijkstra_inv g s (remove1 (c, n, L) q) v"
proof -
  from st obtain b where vn: "v n = Some b" by (auto simp add: stale_def split: option.splits)
  have keep: "x \<in> set (remove1 (c, n, L) q)" if "x \<in> set q" "fst (snd x) \<noteq> n" for x
    using that by (intro in_rest) auto
  have e: "\<forall>x \<in> set (remove1 (c, n, L) q). entry_simple g s v x"
    using inv by (auto simp add: dijkstra_inv_def dest: notin_set_remove1)
  have sc: "start_covered s (remove1 (c, n, L) q) v"
  proof (unfold start_covered_def, intro impI)
    assume vs: "v s = None"
    with inv obtain x where x: "x \<in> set q" "fst (snd x) = s" "fst x \<le> 0"
      by (auto simp add: dijkstra_inv_def start_covered_def)
    from vs vn have "s \<noteq> n" by auto
    with x keep[of x] show "\<exists>x \<in> set (remove1 (c, n, L) q). fst (snd x) = s \<and> fst x \<le> 0"
      by auto
  qed
  have bc: "border_covered g (remove1 (c, n, L) q) v"
  proof (unfold border_covered_def, intro allI impI ballI)
    fix u cu e
    assume u: "v u = Some cu" and e: "e \<in> set (adjacency g u)"
    from inv u e have
      "v (edge_to e) \<noteq> None \<or> (\<exists>x \<in> set q. fst (snd x) = edge_to e \<and> fst x \<le> cu + edge_cost e)"
      unfolding dijkstra_inv_def border_covered_def by blast
    then show "v (edge_to e) \<noteq> None \<or>
        (\<exists>x \<in> set (remove1 (c, n, L) q). fst (snd x) = edge_to e \<and> fst x \<le> cu + edge_cost e)"
    proof
      assume "v (edge_to e) \<noteq> None"
      then show ?thesis ..
    next
      assume "\<exists>x \<in> set q. fst (snd x) = edge_to e \<and> fst x \<le> cu + edge_cost e"
      then obtain x where x: "x \<in> set q" "fst (snd x) = edge_to e" "fst x \<le> cu + edge_cost e"
        by blast
      show ?thesis
      proof (cases "edge_to e = n")
        case True
        with vn show ?thesis by simp
      next
        case False
        with x keep[of x] show ?thesis by auto
      qed
    qed
  qed
  from e sc bc inv show ?thesis by (simp add: dijkstra_inv_def)
qed

lemma dijkstra_inv_expand:
  assumes nn: "nonneg_costs g" and inv: "dijkstra_inv g s q v"
    and q: "q \<noteq> []" and m: "Min (set q) = (c, n, L)" and ns: "\<not> stale v (c, n, L)"
  shows "dijkstra_inv g s (explore g (v(n \<mapsto> c)) c n L (remove1 (c, n, L) q)) (v(n \<mapsto> c))"
proof -
  let ?v = "v(n \<mapsto> c)"
  let ?q = "explore g ?v c n L (remove1 (c, n, L) q)"
  have vn: "v n = None" using fresh_unvisited[OF inv q m ns] .
  from popped_entry_simple[OF inv q m] obtain es where es: "walk g s es n"
    "L = ledger_from (start_waypoint s) es" "c = path_cost es" "distinct (path_nodes s es)"
    "set (butlast (path_nodes s es)) \<subseteq> dom v" by blast
  have keep: "x \<in> set ?q" if "x \<in> set q" "fst (snd x) \<noteq> n" for x
    using that by (intro in_rest_explore) auto
  have lb: "lower_bounds g s ?v"
  proof (unfold lower_bounds_def, intro allI impI)
    fix n' c' es'
    assume a: "?v n' = Some c'" and w: "walk g s es' n'"
    show "c' \<le> path_cost es'"
    proof (cases "n' = n")
      case True
      with a w popped_is_cheapest[OF nn inv q m vn] show ?thesis by simp
    next
      case False
      with a w inv show ?thesis by (auto simp add: dijkstra_inv_def lower_bounds_def)
    qed
  qed
  have nodes: "set (path_nodes s es) \<subseteq> dom ?v"
  proof -
    have "set (path_nodes s es) = set (butlast (path_nodes s es)) \<union> {last (path_nodes s es)}"
      by (rule set_butlast_last) simp
    then have "set (path_nodes s es) = set (butlast (path_nodes s es)) \<union> {n}"
      using walk_end[OF es(1)] by simp
    with es(5) show ?thesis by auto
  qed
  have pushed: "entry_simple g s ?v (new_entry c L e)"
    if e: "e \<in> set (adjacency g n)" and p: "pushable ?v c e" for e
  proof -
    have w: "walk g s (es @ [e]) (edge_to e)" using es(1) e by (auto simp add: walk_snoc)
    have "?v (edge_to e) = None"
    proof (cases "?v (edge_to e)")
      case None
      then show ?thesis .
    next
      case (Some b)
      with lb w have "b \<le> path_cost (es @ [e])" unfolding lower_bounds_def by blast
      with p Some es(3) show ?thesis by (simp add: pushable_def path_cost_snoc)
    qed
    then have "edge_to e \<notin> dom ?v" by (simp only: domIff not_not)
    then have "edge_to e \<notin> set (path_nodes s es)" using nodes by blast
    with es(4) have d: "distinct (path_nodes s (es @ [e]))" by (simp add: path_nodes_snoc)
    have b: "set (butlast (path_nodes s (es @ [e]))) \<subseteq> dom ?v"
      using nodes by (simp add: path_nodes_snoc)
    show ?thesis unfolding entry_simple_def new_entry_ledger[OF es(2,3)]
      using w d b by (intro exI[of _ "es @ [e]"]) simp
  qed
  have e: "\<forall>x \<in> set ?q. entry_simple g s ?v x"
  proof
    fix x assume "x \<in> set ?q"
    then consider "x \<in> set q" | e where "e \<in> set (adjacency g n)" "pushable ?v c e"
      "x = new_entry c L e"
      by (auto simp add: set_explore dest: notin_set_remove1)
    then show "entry_simple g s ?v x"
    proof cases
      case 1
      with inv have "entry_simple g s v x" by (simp add: dijkstra_inv_def)
      then show ?thesis by (rule entry_simple_mono) auto
    next
      case 2
      with pushed show ?thesis by simp
    qed
  qed
  have sc: "start_covered s ?q ?v"
  proof (unfold start_covered_def, intro impI)
    assume vs: "?v s = None"
    then have "s \<noteq> n" "v s = None" by (auto split: if_splits)
    with inv obtain x where x: "x \<in> set q" "fst (snd x) = s" "fst x \<le> 0"
      by (auto simp add: dijkstra_inv_def start_covered_def)
    with \<open>s \<noteq> n\<close> keep[of x] show "\<exists>x \<in> set ?q. fst (snd x) = s \<and> fst x \<le> 0" by auto
  qed
  have bc: "border_covered g ?q ?v"
  proof (unfold border_covered_def, intro allI impI ballI)
    fix u cu e
    assume u: "?v u = Some cu" and e: "e \<in> set (adjacency g u)"
    show "?v (edge_to e) \<noteq> None \<or>
        (\<exists>x \<in> set ?q. fst (snd x) = edge_to e \<and> fst x \<le> cu + edge_cost e)"
    proof (cases "u = n")
      case True
      with u have cu: "cu = c" by simp
      show ?thesis
      proof (cases "pushable ?v c e")
        case True
        with e \<open>u = n\<close> have "new_entry c L e \<in> set ?q" by (intro pushed_in_explore) simp_all
        then show ?thesis using cu by (intro disjI2 bexI[of _ "new_entry c L e"]) simp_all
      next
        case False
        then have "?v (edge_to e) \<noteq> None" by (auto simp add: pushable_def split: option.splits)
        then show ?thesis ..
      qed
    next
      case False
      with u have "v u = Some cu" by simp
      with inv e have
        "v (edge_to e) \<noteq> None \<or> (\<exists>x \<in> set q. fst (snd x) = edge_to e \<and> fst x \<le> cu + edge_cost e)"
        unfolding dijkstra_inv_def border_covered_def by blast
      then show ?thesis
      proof
        assume "v (edge_to e) \<noteq> None"
        then show ?thesis by simp
      next
        assume "\<exists>x \<in> set q. fst (snd x) = edge_to e \<and> fst x \<le> cu + edge_cost e"
        then obtain x where x: "x \<in> set q" "fst (snd x) = edge_to e" "fst x \<le> cu + edge_cost e"
          by blast
        show ?thesis
        proof (cases "edge_to e = n")
          case True
          then show ?thesis by simp
        next
          case False
          with x keep[of x] show ?thesis by auto
        qed
      qed
    qed
  qed
  from e lb sc bc show ?thesis by (simp add: dijkstra_inv_def)
qed


lemma ucs_loop_optimal:
  assumes nn: "nonneg_costs g" and run: "ucs_loop g t q0 v0 = Some r"
    and inv0: "dijkstra_inv g s q0 v0"
  shows "\<forall>L c d toll. fst r = Inr (Some L, Some c, Some d, Some toll) \<longrightarrow>
           (\<exists>es. simple_path g s es t \<and> path_cost es = c) \<and>
           (\<forall>es. walk g s es t \<longrightarrow> c \<le> path_cost es)"
proof (rule ucs_loop_rule[OF run, where I = "dijkstra_inv g s"])
  show "dijkstra_inv g s q0 v0" by fact
next
  fix q v c n L
  assume "dijkstra_inv g s q v" "q \<noteq> []" "Min (set q) = (c, n, L)" "stale v (c, n, L)"
  then show "dijkstra_inv g s (remove1 (c, n, L) q) v" by (rule dijkstra_inv_skip)
next
  fix q v c n L
  assume "dijkstra_inv g s q v" "q \<noteq> []" "Min (set q) = (c, n, L)" "\<not> stale v (c, n, L)"
  then show "dijkstra_inv g s (explore g (v(n \<mapsto> c)) c n L (remove1 (c, n, L) q)) (v(n \<mapsto> c))"
    by (rule dijkstra_inv_expand[OF nn])
next
  fix q :: "'a entry list" and v :: "'a \<rightharpoonup> real" and c L
  assume inv: "dijkstra_inv g s q v" and q: "q \<noteq> []" and m: "Min (set q) = (c, t, L)"
    and ns: "\<not> stale v (c, t, L)"
  have vt: "v t = None" using fresh_unvisited[OF inv q m ns] .
  from popped_entry_simple[OF inv q m] obtain es where
    "walk g s es t" "c = path_cost es" "distinct (path_nodes s es)" by blast
  then have "\<exists>es. simple_path g s es t \<and> path_cost es = c"
    by (auto simp add: simple_path_def)
  moreover have "\<forall>es. walk g s es t \<longrightarrow> c \<le> path_cost es"
    using popped_is_cheapest[OF nn inv q m vt] by blast
  ultimately show "\<forall>L' c' d toll.
      fst (Inr (Some L, Some c, Some (wp_distance (last L)), Some (wp_toll (last L))), [] :: notice list)
        = Inr (Some L', Some c', Some d, Some toll) \<longrightarrow>
           (\<exists>es. simple_path g s es t \<and> path_cost es = c') \<and>
           (\<forall>es. walk g s es t \<longrightarrow> c' \<le> path_cost es)"
    by simp
qed simp_all

lemma abc_graph_other:
  "u \<noteq> ''A'' \<Longrightarrow> u \<noteq> ''B'' \<Longrightarrow> u \<noteq> ''C'' \<Longrightarrow> graph abc_network u = None"
  by (simp add: abc_network_def add_highway_def add_location_def init_def append_record_def)

lemma abc_nonneg: "nonneg_costs (graph abc_network)"
proof -
  have "0 \<le> edge_cost e" if e: "e \<in> set (adjacency (graph abc_network) u)" for u e
  proof (cases "u = ''A''")
    case True
    with e abc_graph(1) show ?thesis by (auto simp add: adjacency_def edge_cost_def)
  next
    case a: False
    show ?thesis
    proof (cases "u = ''B''")
      case True
      with e abc_graph(2) show ?thesis by (auto simp add: adjacency_def edge_cost_def)
    next
      case b: False
      show ?thesis
      proof (cases "u = ''C''")
        case True
        with e abc_graph(3) show ?thesis by (auto simp add: adjacency_def edge_cost_def)
      next
        case False
        from abc_graph_other[OF a b False] e show ?thesis by (simp add: adjacency_def)
      qed
    qed
  qed
  then show ?thesis by (auto simp add: nonneg_costs_def)
qed

lemma dead_end_loop:
  assumes "s \<noteq> t" and "g s = Some []"
  shows "ucs_loop g t [(0, s, [(s, 0, 0, 0, ''Starting Point'')])] Map.empty =
           Some (Inr (None, None, None, None), [NoRouteFound])"
proof -
  have "ucs_loop g t [(0, s, [(s, 0, 0, 0, ''Starting Point'')])] Map.empty =
          ucs_loop g t [] (Map.empty(s \<mapsto> 0))"
    using assms
    by (subst ucs_loop_pop[where c = 0 and n = s and L = "[(s, 0, 0, 0, ''Starting Point'')]"])
      (simp_all add: stale_def explore_def)
  then show ?thesis by (simp add: ucs_loop_empty)
qed

section \<open>The claims\<close>

text \<open>
  C1. On a graph none of whose adjacency records has a negative cost, the total cost of a
  successful search from \<open>s\<close> to \<open>t\<close> is the least cost of a simple route from \<open>s\<close> to
  \<open>t\<close>: some simple route has that cost, and no simple route is cheaper.
\<close>

theorem ucs_search_optimal:
  assumes "nonneg_costs (graph nav)"
    and "search_answer (ucs_search nav s t) = Some (Inr (Some L, Some c, Some d, Some toll))"
  shows "(\<exists>es. simple_path (graph nav) s es t \<and> path_cost es = c) \<and>
         (\<forall>es. simple_path (graph nav) s es t \<longrightarrow> c \<le> path_cost es)"
proof -
  from assms(2) obtain r where r: "ucs_search nav s t = Some r"
    and a: "fst r = Inr (Some L, Some c, Some d, Some toll)"
    by (auto simp add: search_answer_def)
  from r a obtain p where
    run: "ucs_loop (graph nav) t [(0, s, [(s, 0, 0, 0, ''Starting Point'')])] Map.empty =
            Some (Inr (Some L, Some c, Some d, Some toll), p)"
    by (auto simp add: ucs_search_def Let_def split: if_splits option.splits)
  from ucs_loop_optimal[OF assms(1) run dijkstra_inv_init] show ?thesis
    by (simp add: simple_path_def)
qed

theorem ucs_search_optimal_witness:
  "search_answer (ucs_search abc_network ''A'' ''C'') =
     Some (Inr (Some [(''A'', 0, 0, 0, ''Starting Point''), (''B'', 122, 80, 180, ''AB''),
                      (''C'', 192, 135, 275, ''BC'')],
                Some 192, Some 135, Some 275)) \<and>
   (\<exists>es. simple_path (graph abc_network) ''A'' es ''C'' \<and> path_cost es = 192) \<and>
   simple_path (graph abc_network) ''A'' [(''C'', 200, 200, 1, 0, ''AC'')] ''C'' \<and>
   192 \<le> path_cost [(''C'', 200, 200, 1, 0, ''AC'') :: string edge]"
proof -
  have direct: "simple_path (graph abc_network) ''A'' [(''C'', 200, 200, 1, 0, ''AC'')] ''C''"
    using abc_graph(1) by (simp add: simple_path_def adjacency_def path_nodes_def edge_to_def)
  from ucs_search_optimal[OF abc_nonneg abc_search] direct
  have "192 \<le> path_cost [(''C'', 200, 200, 1, 0, ''AC'') :: string edge]" by blast
  with ucs_search_optimal[OF abc_nonneg abc_search] direct abc_search show ?thesis by blast
qed

text \<open>
  C2 (amended). On the network with locations A, B, C and highways A--B (distance 80,
  traffic 1.3, toll 180, cost 122), B--C (distance 55, traffic 1.1, toll 95, cost 70) and
  A--C (distance 200, traffic 1.0, toll 0, cost 200), the search from A to C returns the
  path A, B, C with total cost 192, total distance 135 and total toll 275.
\<close>

theorem abc_route:
  "graph abc_network ''A'' = Some [(''B'', 122, 80, 1.3, 180, ''AB''), (''C'', 200, 200, 1, 0, ''AC'')] \<and>
   graph abc_network ''B'' = Some [(''A'', 122, 80, 1.3, 180, ''AB''), (''C'', 70, 55, 1.1, 95, ''BC'')] \<and>
   graph abc_network ''C'' = Some [(''B'', 70, 55, 1.1, 95, ''BC''), (''A'', 200, 200, 1, 0, ''AC'')] \<and>
   search_answer (ucs_search abc_network ''A'' ''C'') =
     Some (Inr (Some [(''A'', 0, 0, 0, ''Starting Point''), (''B'', 122, 80, 180, ''AB''),
                      (''C'', 192, 135, 275, ''BC'')],
                Some 192, Some 135, Some 275))"
  using abc_graph abc_search by simp

text \<open>
  C2, counterexample. The total cost of that search is 192 and not 191.5: the B--C records carry the cost
  \<open>55 * 1.1 + 95 / 10 = 70\<close>, not 69.5.
\<close>

theorem abc_total_counterexample:
  "search_total_cost (ucs_search abc_network ''A'' ''C'') = Some 192 \<and>
   search_total_cost (ucs_search abc_network ''A'' ''C'') \<noteq> Some 191.5 \<and>
   map edge_cost (adjacency (graph abc_network) ''B'') = [122, 70]"
proof -
  have "search_total_cost (ucs_search abc_network ''A'' ''C'') = Some 192" by code_simp
  then show ?thesis using abc_graph by (simp add: adjacency_def edge_cost_def)
qed

text \<open>
  C3 (amended). \<^verbatim>\<open>add_highway(from_loc, to_loc, distance, traffic_factor, toll, label)\<close>
  appends two records, both with the cost \<open>distance * traffic_factor + toll / 10\<close> and
  the same distance, traffic, toll and label: when the endpoints differ, one record to the
  list of each endpoint; when \<open>from_loc = to_loc\<close>, both records to that one list. A
  missing adjacency entry is created first, every other entry is unchanged, and no display
  name is registered.
\<close>

theorem add_highway_records:
  "graph (add_highway a b d tf toll h nav) =
     (if a = b
      then (graph nav)(a \<mapsto> adjacency (graph nav) a @
              [(b, d * tf + toll / 10, d, tf, toll, h), (a, d * tf + toll / 10, d, tf, toll, h)])
      else (graph nav)(a \<mapsto> adjacency (graph nav) a @ [(b, d * tf + toll / 10, d, tf, toll, h)],
                       b \<mapsto> adjacency (graph nav) b @ [(a, d * tf + toll / 10, d, tf, toll, h)])) \<and>
   locations (add_highway a b d tf toll h nav) = locations nav"
  using add_highway_graph[of a b d tf toll h nav] add_highway_locations[of a b d tf toll h nav]
  by simp

theorem add_highway_records_witness:
  "graph (add_highway ''A'' ''B'' 80 1.3 180 ''NLEX'' two_towns) ''A'' =
     Some [(''B'', 122, 80, 1.3, 180, ''NLEX'')] \<and>
   graph (add_highway ''A'' ''B'' 80 1.3 180 ''NLEX'' two_towns) ''B'' =
     Some [(''A'', 122, 80, 1.3, 180, ''NLEX'')] \<and>
   graph (add_highway ''A'' ''A'' 1 1 0 ''Ring'' two_towns) ''A'' =
     Some [(''A'', 1, 1, 1, 0, ''Ring''), (''A'', 1, 1, 1, 0, ''Ring'')]"
  using add_highway_records[of "''A''" "''B''" 80 "1.3" 180 "''NLEX''" two_towns]
    add_highway_records[of "''A''" "''A''" 1 1 0 "''Ring''" two_towns]
  by (simp add: two_towns_def add_location_def init_def adjacency_def)

text \<open>
  C3, counterexample. A highway from a location to itself appends two records to the list of its only
  endpoint, not one.
\<close>

theorem self_loop_counterexample:
  "graph (add_location ''A'' ''Alpha'' init) ''A'' = Some [] \<and>
   graph ring_road ''A'' = Some [(''A'', 1, 1, 1, 0, ''Ring''), (''A'', 1, 1, 1, 0, ''Ring'')] \<and>
   length [(''A'', 1 :: real, 1 :: real, 1 :: real, 0 :: real, ''Ring''), (''A'', 1, 1, 1, 0, ''Ring'')] \<noteq> 1"
  by (simp add: ring_road_def add_highway_def add_location_def init_def append_record_def)

text \<open>
  C4 (amended). \<^verbatim>\<open>ucs_search\<close> has two return values that a caller can tell apart. When
  start or goal has no adjacency entry it returns the tuple \<^verbatim>\<open>(None, None, None, None)\<close>
  and prints the line of line 76. When the frontier empties it returns the same tuple and
  prints the line of line 178; this is what happens, for one, when the start has an empty
  adjacency list and differs from the goal. Every search that returns gives back either a
  success tuple, whose four components are all present and whose path list is not empty,
  with no failure line printed and start and goal both present, or the all-\<^verbatim>\<open>None\<close> tuple
  with exactly one of the two lines, the first exactly when start or goal is absent.
\<close>

theorem search_outcomes:
  "(graph nav s = None \<or> graph nav t = None \<longrightarrow>
      ucs_search nav s t =
        Some (Inr (None, None, None, None), [LocationNotFound],
              nav\<lparr>start := Some s, goal := Some t\<rparr>)) \<and>
   ucs_loop g t [] v = Some (Inr (None, None, None, None), [NoRouteFound]) \<and>
   (graph nav s = Some [] \<and> graph nav t \<noteq> None \<and> s \<noteq> t \<longrightarrow>
      ucs_search nav s t =
        Some (Inr (None, None, None, None), [NoRouteFound],
              nav\<lparr>start := Some s, goal := Some t\<rparr>)) \<and>
   (ucs_search nav s t = Some (a, printed, nav') \<longrightarrow>
      (\<exists>L c d toll. a = Inr (Some L, Some c, Some d, Some toll) \<and> L \<noteq> [] \<and> printed = [] \<and>
         graph nav s \<noteq> None \<and> graph nav t \<noteq> None) \<or>
      a = Inr (None, None, None, None) \<and>
        (printed = [LocationNotFound] \<and> (graph nav s = None \<or> graph nav t = None) \<or>
         printed = [NoRouteFound] \<and> graph nav s \<noteq> None \<and> graph nav t \<noteq> None))"
proof (intro conjI impI)
  assume "graph nav s = None \<or> graph nav t = None"
  then show "ucs_search nav s t =
        Some (Inr (None, None, None, None), [LocationNotFound],
              nav\<lparr>start := Some s, goal := Some t\<rparr>)"
    by (auto simp add: ucs_search_def)
next
  show "ucs_loop g t [] v = Some (Inr (None, None, None, None), [NoRouteFound])"
    by (rule ucs_loop_empty)
next
  assume a: "graph nav s = Some [] \<and> graph nav t \<noteq> None \<and> s \<noteq> t"
  then have "ucs_loop (graph nav) t [(0, s, [(s, 0, 0, 0, ''Starting Point'')])] Map.empty =
           Some (Inr (None, None, None, None), [NoRouteFound])"
    by (intro dead_end_loop) simp_all
  with a show "ucs_search nav s t =
        Some (Inr (None, None, None, None), [NoRouteFound],
              nav\<lparr>start := Some s, goal := Some t\<rparr>)"
    by (auto simp add: ucs_search_def)
next
  assume "ucs_search nav s t = Some (a, printed, nav')"
  from ucs_search_cases[OF this]
  show "(\<exists>L c d toll. a = Inr (Some L, Some c, Some d, Some toll) \<and> L \<noteq> [] \<and> printed = [] \<and>
         graph nav s \<noteq> None \<and> graph nav t \<noteq> None) \<or>
      a = Inr (None, None, None, None) \<and>
        (printed = [LocationNotFound] \<and> (graph nav s = None \<or> graph nav t = None) \<or>
         printed = [NoRouteFound] \<and> graph nav s \<noteq> None \<and> graph nav t \<noteq> None)"
    by auto
qed

theorem search_outcomes_witness:
  "ucs_search (init :: string navigator) ''A'' ''B'' =
     Some (Inr (None, None, None, None), [LocationNotFound],
           init\<lparr>start := Some ''A'', goal := Some ''B''\<rparr>) \<and>
   ucs_search two_towns ''A'' ''B'' =
     Some (Inr (None, None, None, None), [NoRouteFound],
           two_towns\<lparr>start := Some ''A'', goal := Some ''B''\<rparr>) \<and>
   search_printed (ucs_search abc_network ''A'' ''C'') = Some []"
proof -
  have absent: "graph (init :: string navigator) ''A'' = None \<or> graph (init :: string navigator) ''B'' = None"
    by (simp add: init_def)
  have dead: "graph two_towns ''A'' = Some [] \<and> graph two_towns ''B'' \<noteq> None \<and> ''A'' \<noteq> ''B''"
    by (simp add: two_towns_def add_location_def init_def)
  from abc_search obtain a p n where r: "ucs_search abc_network ''A'' ''C'' = Some (a, p, n)"
    and a: "a = Inr (Some [(''A'', 0, 0, 0, ''Starting Point''), (''B'', 122, 80, 180, ''AB''),
                      (''C'', 192, 135, 275, ''BC'')], Some 192, Some 135, Some 275)"
    by (auto simp add: search_answer_def)
  from search_outcomes[of abc_network "''A''" "''C''" "graph abc_network" Map.empty a p n] r a
  have "p = []" by simp
  with r have "search_printed (ucs_search abc_network ''A'' ''C'') = Some []"
    by (simp add: search_printed_def)
  with search_outcomes[of init "''A''" "''B''" "graph init" Map.empty] absent
    search_outcomes[of two_towns "''A''" "''B''" "graph two_towns" Map.empty] dead
  show ?thesis by blast
qed

text \<open>
  C4, counterexample. A search between two unknown locations and a search between two registered locations
  with no highway return the same value; only the printed lines differ.
\<close>

theorem failures_indistinguishable_counterexample:
  "search_answer (ucs_search (init :: string navigator) ''A'' ''B'') =
     search_answer (ucs_search two_towns ''A'' ''B'') \<and>
   search_printed (ucs_search (init :: string navigator) ''A'' ''B'') = Some [LocationNotFound] \<and>
   search_printed (ucs_search two_towns ''A'' ''B'') = Some [NoRouteFound]"
  using init_search two_towns_search by simp

text \<open>
  C5 (amended). The path list of a successful search is built along a route of the graph
  from start to goal: waypoint \<open>i\<close> is at the \<open>i\<close>-th location of the route and its
  cumulative distance and toll are the sums of the distances and tolls of the first \<open>i\<close>
  records of the route. When no record of the graph has a negative cost, the cumulative
  costs along the path list never decrease.
\<close>

theorem ledger_prefix_sums:
  assumes "search_answer (ucs_search nav s t) = Some (Inr (Some L, Some c, Some d, Some toll))"
  shows "\<exists>es. walk (graph nav) s es t \<and> length L = Suc (length es) \<and>
           (\<forall>i \<le> length es.
              wp_location (L ! i) = path_nodes s es ! i \<and>
              wp_distance (L ! i) = path_distance (take i es) \<and>
              wp_toll (L ! i) = path_toll (take i es)) \<and>
           (nonneg_costs (graph nav) \<longrightarrow> sorted (map wp_cost L))"
proof -
  from search_success[OF assms] obtain es where es: "walk (graph nav) s es t"
    "L = ledger_from (start_waypoint s) es" by blast
  have w: "walk (graph nav) (wp_location (start_waypoint s)) es t" using es(1) by simp
  have "wp_location (L ! i) = path_nodes s es ! i \<and>
        wp_distance (L ! i) = path_distance (take i es) \<and>
        wp_toll (L ! i) = path_toll (take i es)" if i: "i \<le> length es" for i
  proof -
    have "wp_location (L ! i) = map wp_location L ! i" using i es(2) by simp
    then have "wp_location (L ! i) = path_nodes s es ! i"
      using es(2) by (simp add: map_location_ledger)
    then show ?thesis using i es(2)
      by (simp add: nth_ledger last_ledger_distance last_ledger_toll)
  qed
  moreover have "nonneg_costs (graph nav) \<longrightarrow> sorted (map wp_cost L)"
    using ledger_costs_sorted[OF _ w] es(2) by blast
  ultimately show ?thesis using es by (intro exI[of _ es]) simp
qed

theorem ledger_prefix_sums_witness:
  "search_answer (ucs_search abc_network ''A'' ''C'') =
     Some (Inr (Some [(''A'', 0, 0, 0, ''Starting Point''), (''B'', 122, 80, 180, ''AB''),
                      (''C'', 192, 135, 275, ''BC'')],
                Some 192, Some 135, Some 275)) \<and>
   sorted (map wp_cost [(''A'', 0, 0, 0, ''Starting Point''), (''B'', 122, 80, 180, ''AB''),
                        (''C'', 192, 135, 275, ''BC'')]) \<and>
   (\<exists>es. walk (graph abc_network) ''A'' es ''C'' \<and> length es = 2 \<and>
      wp_distance ((''C'', 192, 135, 275, ''BC'') :: string waypoint) = path_distance (take 2 es) \<and>
      wp_toll ((''C'', 192, 135, 275, ''BC'') :: string waypoint) = path_toll (take 2 es))"
proof -
  from ledger_prefix_sums[OF abc_search] obtain es where es:
    "walk (graph abc_network) ''A'' es ''C''"
    "length [(''A'', 0 :: real, 0 :: real, 0 :: real, ''Starting Point''), (''B'', 122, 80, 180, ''AB''),
             (''C'', 192, 135, 275, ''BC'')] = Suc (length es)"
    "\<forall>i \<le> length es.
       wp_location ([(''A'', 0, 0, 0, ''Starting Point''), (''B'', 122, 80, 180, ''AB''),
                     (''C'', 192, 135, 275, ''BC'')] ! i) = path_nodes ''A'' es ! i \<and>
       wp_distance ([(''A'', 0, 0, 0, ''Starting Point''), (''B'', 122, 80, 180, ''AB''),
                     (''C'', 192, 135, 275, ''BC'')] ! i) = path_distance (take i es) \<and>
       wp_toll ([(''A'', 0, 0, 0, ''Starting Point''), (''B'', 122, 80, 180, ''AB''),
                 (''C'', 192, 135, 275, ''BC'')] ! i) = path_toll (take i es)"
    "nonneg_costs (graph abc_network) \<longrightarrow>
       sorted (map wp_cost [(''A'', 0, 0, 0, ''Starting Point''), (''B'', 122, 80, 180, ''AB''),
                            (''C'', 192, 135, 275, ''BC'')])"
    by blast
  from es(2) have len: "length es = 2" by simp
  from es(3) len have
    "wp_distance ([(''A'', 0, 0, 0, ''Starting Point''), (''B'', 122, 80, 180, ''AB''),
                   (''C'', 192, 135, 275, ''BC'')] ! 2) = path_distance (take 2 es) \<and>
     wp_toll ([(''A'', 0, 0, 0, ''Starting Point''), (''B'', 122, 80, 180, ''AB''),
               (''C'', 192, 135, 275, ''BC'')] ! 2) = path_toll (take 2 es)"
    by (metis order_refl)
  then have "wp_distance ((''C'', 192, 135, 275, ''BC'') :: string waypoint) = path_distance (take 2 es) \<and>
      wp_toll ((''C'', 192, 135, 275, ''BC'') :: string waypoint) = path_toll (take 2 es)"
    by simp
  with es(1,4) len abc_nonneg abc_search show ?thesis by blast
qed

text \<open>
  C5, counterexample. With a highway of negative distance the cumulative costs of a returned path list
  decrease.
\<close>

theorem ledger_costs_counterexample:
  "search_answer (ucs_search downhill ''A'' ''B'') =
     Some (Inr (Some [(''A'', 0, 0, 0, ''Starting Point''), (''B'', - 5, - 5, 0, ''AB'')],
                Some (- 5), Some (- 5), Some 0)) \<and>
   \<not> sorted (map wp_cost [(''A'', 0, 0, 0, ''Starting Point''), (''B'', - 5, - 5, 0, ''AB'')])"
  using downhill_search by (simp add: wp_cost_def)

text \<open>
  C6. The line of line 76 is printed exactly when start or goal has no adjacency entry.
  \<^verbatim>\<open>add_highway\<close> gives both its endpoints an adjacency entry and registers no name, and
  neither the value a search returns nor what it prints depends on the registered names.
\<close>

theorem unknown_location_signal:
  "(search_printed (ucs_search nav s t) = Some [LocationNotFound] \<longleftrightarrow>
      graph nav s = None \<or> graph nav t = None) \<and>
   graph (add_highway a b d tf toll h nav) a \<noteq> None \<and>
   graph (add_highway a b d tf toll h nav) b \<noteq> None \<and>
   locations (add_highway a b d tf toll h nav) = locations nav \<and>
   search_answer (ucs_search (nav\<lparr>locations := names\<rparr>) s t) = search_answer (ucs_search nav s t) \<and>
   search_printed (ucs_search (nav\<lparr>locations := names\<rparr>) s t) = search_printed (ucs_search nav s t)"
  by (simp add: printed_unknown_iff add_highway_graph add_highway_locations search_ignores_names)

theorem unknown_location_signal_witness:
  "search_answer (ucs_search roadside ''X'' ''Y'') =
     Some (Inr (Some [(''X'', 0, 0, 0, ''Starting Point''), (''Y'', 10, 10, 0, ''XY'')],
                Some 10, Some 10, Some 0)) \<and>
   locations roadside ''X'' = None \<and>
   search_printed (ucs_search roadside ''X'' ''Y'') \<noteq> Some [LocationNotFound] \<and>
   search_printed (ucs_search roadside ''X'' ''Z'') = Some [LocationNotFound]"
proof -
  have x: "graph roadside ''X'' \<noteq> None" and y: "graph roadside ''Y'' \<noteq> None"
    and z: "graph roadside ''Z'' = None"
    by (simp_all add: roadside_def add_highway_def init_def append_record_def)
  from unknown_location_signal[of roadside "''X''" "''Y''"] x y
  have "search_printed (ucs_search roadside ''X'' ''Y'') \<noteq> Some [LocationNotFound]" by simp
  moreover from unknown_location_signal[of roadside "''X''" "''Z''"] z
  have "search_printed (ucs_search roadside ''X'' ''Z'') = Some [LocationNotFound]" by simp
  ultimately show ?thesis using roadside_search by simp
qed

text \<open>
  C7. On the network made of two registered locations and one call of \<^verbatim>\<open>add_highway\<close>
  between them, the search from the first to the second and the search back both succeed
  and return the same total cost.
\<close>

theorem single_highway_symmetric:
  "search_total_cost (ucs_search (single_highway a b na nb d tf toll h) a b) =
     search_total_cost (ucs_search (single_highway a b na nb d tf toll h) b a) \<and>
   search_total_cost (ucs_search (single_highway a b na nb d tf toll h) a b) \<noteq> None"
  by (simp add: single_highway_cost)

theorem single_highway_symmetric_witness:
  "search_total_cost (ucs_search (single_highway ''A'' ''B'' ''Alpha'' ''Beta'' 80 1.3 180 ''NLEX'') ''A'' ''B'') =
     search_total_cost (ucs_search (single_highway ''A'' ''B'' ''Alpha'' ''Beta'' 80 1.3 180 ''NLEX'') ''B'' ''A'') \<and>
   search_total_cost (ucs_search (single_highway ''A'' ''B'' ''Alpha'' ''Beta'' 80 1.3 180 ''NLEX'') ''A'' ''B'') \<noteq> None"
  using single_highway_symmetric[of "''A''" "''B''" "''Alpha''" "''Beta''" 80 "1.3" 180 "''NLEX''"] .

text \<open>
  C8. After two calls of \<^verbatim>\<open>add_location\<close> with the same identifier, the names are the
  names before with the identifier bound to the second name, and the graph is the graph
  left by the first call: the identifier has one adjacency list, empty if it had none
  before, and every list is unchanged.
\<close>

theorem add_location_twice:
  "locations (add_location i name2 (add_location i name1 nav)) = (locations nav)(i \<mapsto> name2) \<and>
   graph (add_location i name2 (add_location i name1 nav)) = graph (add_location i name1 nav) \<and>
   graph (add_location i name1 nav) = (graph nav)(i \<mapsto> adjacency (graph nav) i)"
  by (auto simp add: add_location_def adjacency_def Let_def split: option.splits)

theorem add_location_twice_witness:
  "locations (add_location ''A'' ''Second'' (add_location ''A'' ''First'' roadside)) ''A'' = Some ''Second'' \<and>
   graph (add_location ''A'' ''Second'' (add_location ''X'' ''First'' roadside)) ''X'' =
     Some [(''Y'', 10, 10, 1, 0, ''XY'')] \<and>
   graph (add_location ''X'' ''Second'' (add_location ''X'' ''First'' roadside)) ''X'' =
     Some [(''Y'', 10, 10, 1, 0, ''XY'')]"
proof -
  have x: "graph roadside ''X'' = Some [(''Y'', 10, 10, 1, 0, ''XY'')]"
    by (simp add: roadside_def add_highway_def init_def append_record_def)
  have "graph (add_location ''A'' ''Second'' (add_location ''X'' ''First'' roadside)) ''X'' =
     Some [(''Y'', 10, 10, 1, 0, ''XY'')]"
    using x by (simp add: add_location_def Let_def)
  then show ?thesis
    using add_location_twice[of "''A''" "''Second''" "''First''" roadside]
      add_location_twice[of "''X''" "''Second''" "''First''" roadside] x
    by (simp add: adjacency_def)
qed

text \<open>
  C9. On the totals of a successful search \<^verbatim>\<open>analyze_algorithm\<close> computes the estimated
  hours \<open>total_distance / 60\<close>, the fuel cost \<open>total_distance * 2.5\<close> and the trip cost
  \<open>total_toll + fuel_cost\<close>.
\<close>

theorem trip_estimates:
  assumes "search_answer (ucs_search nav s t) = Some (Inr (Some L, Some c, Some d, Some toll))"
  shows "analyze_algorithm (Some L) (Some c) (Some d) (Some toll) =
           Inr (Some (d / 60, d * 2.5, toll + d * 2.5))"
proof -
  from search_success[OF assms] have "L \<noteq> []" by auto
  then show ?thesis by (simp add: analyze_algorithm_def avg_speed_def Let_def)
qed


theorem trip_estimates_witness:
  "analyze_algorithm
     (Some [(''A'', 0, 0, 0, ''Starting Point''), (''B'', 122, 80, 180, ''AB''),
            (''C'', 192, 135, 275, ''BC'')])
     (Some 192) (Some 135) (Some 275) = Inr (Some (135 / 60, 135 * 2.5, 275 + 135 * 2.5))"
  using trip_estimates[OF abc_search] .

text \<open>
  C10. The path list of a successful search is not empty, starts with the start location
  at cost, distance and toll zero under the label \<open>Starting Point\<close>, and ends at the
  goal; each waypoint after the first is obtained from its predecessor by an adjacency
  record of the predecessor's location; and the returned totals are the cumulative cost,
  distance and toll of the last waypoint.
\<close>

theorem ucs_search_ledger_shape:
  assumes "search_answer (ucs_search nav s t) = Some (Inr (Some L, Some c, Some d, Some toll))"
  shows "L \<noteq> [] \<and> hd L = (s, 0, 0, 0, ''Starting Point'') \<and> wp_location (last L) = t \<and>
         follows_roads (graph nav) L \<and>
         c = wp_cost (last L) \<and> d = wp_distance (last L) \<and> toll = wp_toll (last L)"
proof -
  from search_success[OF assms] obtain es where es: "walk (graph nav) s es t"
    "L = ledger_from (start_waypoint s) es" "c = path_cost es" "d = path_distance es"
    "toll = path_toll es" by blast
  have w: "walk (graph nav) (wp_location (start_waypoint s)) es t" using es(1) by simp
  show ?thesis using es follows_roads_ledger[OF w] last_ledger_location[OF w]
    by (simp add: last_ledger_cost last_ledger_distance last_ledger_toll)
     (simp add: start_waypoint_def)
qed

theorem ucs_search_ledger_shape_witness:
  "search_answer (ucs_search abc_network ''A'' ''C'') =
     Some (Inr (Some [(''A'', 0, 0, 0, ''Starting Point''), (''B'', 122, 80, 180, ''AB''),
                      (''C'', 192, 135, 275, ''BC'')],
                Some 192, Some 135, Some 275)) \<and>
   follows_roads (graph abc_network)
     [(''A'', 0, 0, 0, ''Starting Point''), (''B'', 122, 80, 180, ''AB''),
      (''C'', 192, 135, 275, ''BC'')]"
  using ucs_search_ledger_shape[OF abc_search] abc_search by simp

end
